theory Spec2Isabelle
  imports Main "HOL-Library.Word"
begin

section \<open>Strings\<close>

text \<open>
  A JavaScript string is a sequence of 16-bit code units. String literals of the
  source are written \<open>js ''...''\<close>.
\<close>

type_synonym code_unit = "16 word"
type_synonym jsstring = "code_unit list"

definition js :: "string \<Rightarrow> jsstring" where
  "js s = map of_char s"

text \<open>
  The code units that \<^verbatim>\<open>String.prototype.trim\<close> strips and that the regular
  expression escape \<^verbatim>\<open>\s\<close> matches (white space and line terminators):
  U+0009 to U+000D, U+0020, U+00A0, U+1680, U+2000 to U+200A, U+2028, U+2029, U+202F,
  U+205F, U+3000 and U+FEFF.
\<close>

definition isWhiteSpace :: "code_unit \<Rightarrow> bool" where
  "isWhiteSpace c \<longleftrightarrow>
     (0x0009 \<le> c \<and> c \<le> 0x000D) \<or> c = 0x0020 \<or> c = 0x00A0 \<or> c = 0x1680 \<or>
     (0x2000 \<le> c \<and> c \<le> 0x200A) \<or> c = 0x2028 \<or> c = 0x2029 \<or> c = 0x202F \<or>
     c = 0x205F \<or> c = 0x3000 \<or> c = 0xFEFF"

definition trim :: "jsstring \<Rightarrow> jsstring" where
  "trim s = rev (dropWhile isWhiteSpace (rev (dropWhile isWhiteSpace s)))"

text \<open>
  \<^verbatim>\<open>toLowerCase\<close> on the code units A to Z. The source applies it only to matches of
  the extraction expression, which consist of ASCII code units (lemma
  \<open>extractRegex_match_ascii\<close> below); the Unicode case mapping of other code units is
  not modelled and they are left as they are.
\<close>

definition lowerUnit :: "code_unit \<Rightarrow> code_unit" where
  "lowerUnit c = (if 0x41 \<le> c \<and> c \<le> 0x5A then c + 0x20 else c)"

definition toLowerCase :: "jsstring \<Rightarrow> jsstring" where
  "toLowerCase s = map lowerUnit s"

section \<open>Regular expressions\<close>

text \<open>
  Both expressions of the source are sequences of character classes, each taken once
  or repeated greedily at least \<open>n\<close> times, between optional anchors. A class is a list
  of single code units, ranges and \<^verbatim>\<open>\s\<close>, possibly negated.
\<close>

datatype class_item = Chr code_unit | Range code_unit code_unit | WhiteSpace

datatype char_class = Class "class_item list" | NegClass "class_item list"

datatype piece = One char_class | AtLeast nat char_class | Bol | Eol

fun item_matches :: "class_item \<Rightarrow> code_unit \<Rightarrow> bool" where
  "item_matches (Chr c) x = (x = c)"
| "item_matches (Range lo hi) x = (lo \<le> x \<and> x \<le> hi)"
| "item_matches WhiteSpace x = isWhiteSpace x"

fun class_matches :: "char_class \<Rightarrow> code_unit \<Rightarrow> bool" where
  "class_matches (Class items) x = list_ex (\<lambda>i. item_matches i x) items"
| "class_matches (NegClass items) x = (\<not> list_ex (\<lambda>i. item_matches i x) items)"

text \<open>
  The backtracking matcher of the language definition, in continuation style. A
  continuation receives whether the current position is the start of the input and
  the input that is left, and answers with the input left after the whole match, or
  \<open>None\<close>. A greedy repetition first tries one more code unit and falls back to the
  continuation only when that fails.
\<close>

type_synonym cont = "bool \<Rightarrow> jsstring \<Rightarrow> jsstring option"

fun repeat :: "char_class \<Rightarrow> nat \<Rightarrow> cont \<Rightarrow> cont" where
  "repeat c n k b [] = (if n = 0 then k b [] else None)"
| "repeat c n k b (x # xs) =
    (if class_matches c x then
       (case repeat c (n - 1) k False xs of
          Some r \<Rightarrow> Some r
        | None \<Rightarrow> if n = 0 then k b (x # xs) else None)
     else if n = 0 then k b (x # xs) else None)"

fun piece_matcher :: "piece \<Rightarrow> cont \<Rightarrow> cont" where
  "piece_matcher (One c) k b [] = None"
| "piece_matcher (One c) k b (x # xs) = (if class_matches c x then k False xs else None)"
| "piece_matcher (AtLeast n c) k b s = repeat c n k b s"
| "piece_matcher Bol k b s = (if b then k b s else None)"
| "piece_matcher Eol k b s = (if s = [] then k b s else None)"

primrec matcher :: "piece list \<Rightarrow> cont" where
  "matcher [] = (\<lambda>b s. Some s)"
| "matcher (p # ps) = piece_matcher p (matcher ps)"

text \<open>
  \<^verbatim>\<open>RegExp.prototype.test\<close> of an expression without the global flag: the first
  start position, from the left, at which the matcher succeeds.
\<close>

fun search :: "piece list \<Rightarrow> bool \<Rightarrow> jsstring \<Rightarrow> bool" where
  "search r b [] = (matcher r b [] \<noteq> None)"
| "search r b (x # xs) = (if matcher r b (x # xs) \<noteq> None then True else search r False xs)"

definition test :: "piece list \<Rightarrow> jsstring \<Rightarrow> bool" where
  "test r s = search r True s"

text \<open>
  \<^verbatim>\<open>String.prototype.match\<close> with a global expression: the matches from left to
  right, each search starting where the previous match ended (one code unit further
  after an empty match), and \<^verbatim>\<open>null\<close> when there is none.
\<close>

function match_all :: "piece list \<Rightarrow> bool \<Rightarrow> jsstring \<Rightarrow> jsstring list" where
  "match_all r b [] = (case matcher r b [] of Some rest \<Rightarrow> [[]] | None \<Rightarrow> [])"
| "match_all r b (x # xs) =
     (case matcher r b (x # xs) of
        None \<Rightarrow> match_all r False xs
      | Some rest \<Rightarrow>
          (let n = length (x # xs) - length rest in
           if n = 0 then [] # match_all r False xs
           else take n (x # xs) # match_all r False (drop n (x # xs))))"
  by pat_completeness auto
termination
  by (relation "measure (\<lambda>(r, b, s). length s)") auto

definition match_g :: "piece list \<Rightarrow> jsstring \<Rightarrow> jsstring list option" where
  "match_g r s = (let ms = match_all r True s in if ms = [] then None else Some ms)"

text \<open>
  The validation expression of \<^verbatim>\<open>validateEmail\<close>:
  \<^verbatim>\<open>/^[^\s@]+@[^\s@]+\.[^\s@]+$/\<close>.
\<close>

definition notSpaceAt :: char_class where
  "notSpaceAt = NegClass [WhiteSpace, Chr (of_char CHR ''@'')]"

definition emailRegex :: "piece list" where
  "emailRegex =
     [Bol, AtLeast 1 notSpaceAt, One (Class [Chr (of_char CHR ''@'')]),
      AtLeast 1 notSpaceAt, One (Class [Chr (of_char CHR ''.'')]),
      AtLeast 1 notSpaceAt, Eol]"

definition validateEmail :: "jsstring \<Rightarrow> bool" where
  "validateEmail email = test emailRegex email"

text \<open>
  The extraction expression of \<^verbatim>\<open>handleExcelImport\<close>:
  \<^verbatim>\<open>/[a-zA-Z0-9._%+-]+@[a-zA-Z0-9.-]+\.[a-zA-Z]{2,}/g\<close>.
\<close>

definition letters :: "class_item list" where
  "letters = [Range (of_char CHR ''a'') (of_char CHR ''z''),
              Range (of_char CHR ''A'') (of_char CHR ''Z'')]"

definition alnum :: "class_item list" where
  "alnum = letters @ [Range (of_char CHR ''0'') (of_char CHR ''9'')]"

definition extractRegex :: "piece list" where
  "extractRegex =
     [AtLeast 1 (Class (alnum @ map (\<lambda>c. Chr (of_char c)) ''._%+-'')),
      One (Class [Chr (of_char CHR ''@'')]),
      AtLeast 1 (Class (alnum @ map (\<lambda>c. Chr (of_char c)) ''.-'')),
      One (Class [Chr (of_char CHR ''.'')]),
      AtLeast 2 (Class letters)]"

section \<open>Notifications\<close>

text \<open>
  One constructor for each \<^verbatim>\<open>toast\<close> call of the source, named after its title.
  \<open>ExcelImportComplete\<close> carries the numbers of imported, duplicate and invalid
  addresses from which the source builds the description (a part whose number is
  zero is left out of the text). \<open>destructive\<close> is the error variant.
\<close>

datatype toast =
    InvalidEmail
  | InvalidEmailFormat
  | DuplicateEmail
  | RecipientAdded jsstring
  | RecipientRemoved jsstring
  | AllRecipientsCleared
  | NoEmailsFound
  | ExcelImportComplete nat nat nat
  | ImportFailed
  | TooManyFiles
  | FileTooLarge string
  | NoRecipients
  | EmailPrepared nat nat

fun destructive :: "toast \<Rightarrow> bool" where
  "destructive InvalidEmail = True"
| "destructive InvalidEmailFormat = True"
| "destructive DuplicateEmail = True"
| "destructive NoEmailsFound = True"
| "destructive ImportFailed = True"
| "destructive TooManyFiles = True"
| "destructive (FileTooLarge n) = True"
| "destructive NoRecipients = True"
| "destructive t = False"

section \<open>ContactForm\<close>

text \<open>
  \<^verbatim>\<open>const [recipients, setRecipients] = useState<string[]>([])\<close>: within one render
  \<open>recipients\<close> is a constant, and the handlers of that render close over it.
  \<^verbatim>\<open>setRecipients(v)\<close> replaces the state that the next render will see by \<open>v\<close>.
  A handler is therefore a function of the rendered value (its first argument) that
  transforms the pending next state (its last argument).
\<close>

definition initialRecipients :: "jsstring list" where
  "initialRecipients = []"

definition onAddRecipient :: "jsstring list \<Rightarrow> jsstring \<Rightarrow> jsstring list \<Rightarrow> jsstring list" where
  "onAddRecipient recipients email pending =
     (if email \<noteq> [] \<and> email \<notin> set recipients then recipients @ [email] else pending)"

definition onRemoveRecipient :: "jsstring list \<Rightarrow> jsstring \<Rightarrow> jsstring list \<Rightarrow> jsstring list" where
  "onRemoveRecipient recipients email pending = filter (\<lambda>r. r \<noteq> email) recipients"

definition handleClearAll :: "jsstring list \<Rightarrow> jsstring list" where
  "handleClearAll pending = []"

record attached_file =
  file_name :: string
  file_size :: nat

definition maxSize :: nat where
  "maxSize = 10 * 1024 * 1024"

definition maxFiles :: nat where
  "maxFiles = 5"

text \<open>
  \<^verbatim>\<open>handleFileAttach\<close> on the staged list of the render and the selected files:
  the notifications shown and the staged list afterwards. The handler runs once for
  an event, so the \<open>prev\<close> of its functional update is the rendered list.
\<close>

definition handleFileAttach ::
  "attached_file list \<Rightarrow> attached_file list \<Rightarrow> toast list \<times> attached_file list" where
  "handleFileAttach attachedFiles files =
     (if length attachedFiles + length files > maxFiles then ([TooManyFiles], attachedFiles)
      else
        (map (\<lambda>f. FileTooLarge (file_name f)) (filter (\<lambda>f. file_size f > maxSize) files),
         attachedFiles @ filter (\<lambda>f. \<not> file_size f > maxSize) files))"

text \<open>
  \<^verbatim>\<open>onSubmit\<close> as the sequence of its effects. Nothing in its \<^verbatim>\<open>try\<close> block
  raises, so the \<^verbatim>\<open>catch\<close> branch has no run.
\<close>

datatype effect =
    Notify toast
  | SetIsLoading bool
  | ConsoleLog
  | Delay nat
  | FormReset
  | SetRecipients "jsstring list"
  | SetAttachedFiles "attached_file list"

definition onSubmit :: "jsstring list \<Rightarrow> attached_file list \<Rightarrow> effect list" where
  "onSubmit recipients attachedFiles =
     (if length recipients = 0 then [Notify NoRecipients]
      else
        [SetIsLoading True, ConsoleLog, Delay 2000,
         Notify (EmailPrepared (length recipients) (length attachedFiles)),
         FormReset, SetRecipients [], SetAttachedFiles [], SetIsLoading False])"

section \<open>RecipientsManager\<close>

text \<open>
  \<^verbatim>\<open>handleAddRecipient\<close> on the rendered list and the text of the input field: the
  notification, the list afterwards and the input field afterwards.
\<close>

definition handleAddRecipient ::
  "jsstring list \<Rightarrow> jsstring \<Rightarrow> toast \<times> jsstring list \<times> jsstring" where
  "handleAddRecipient recipients newRecipient =
     (if trim newRecipient = [] then (InvalidEmail, recipients, newRecipient)
      else if \<not> validateEmail newRecipient then (InvalidEmailFormat, recipients, newRecipient)
      else if newRecipient \<in> set recipients then (DuplicateEmail, recipients, newRecipient)
      else (RecipientAdded newRecipient, onAddRecipient recipients newRecipient recipients, []))"

definition handleRemoveRecipient :: "jsstring list \<Rightarrow> jsstring \<Rightarrow> toast \<times> jsstring list" where
  "handleRemoveRecipient recipients email =
     (RecipientRemoved email, onRemoveRecipient recipients email recipients)"

text \<open>
  The \<^verbatim>\<open>onClick\<close> of the Clear All button:
  \<^verbatim>\<open>recipients.forEach(email => onRemoveRecipient(email))\<close>, then one notification.
  Every call is made by the same render.
\<close>

definition clearAllOnClick :: "jsstring list \<Rightarrow> toast \<times> jsstring list" where
  "clearAllOnClick recipients =
     (AllRecipientsCleared, fold (onRemoveRecipient recipients) recipients recipients)"

subsection \<open>Import\<close>

text \<open>
  The spreadsheet library is not part of the repository, so a sheet is given by what
  its two readings return: \<open>withHeaders\<close> for \<^verbatim>\<open>sheet_to_json(worksheet)\<close>, the
  records as the lists of their values, and \<open>rawRows\<close> for
  \<^verbatim>\<open>sheet_to_json(worksheet, { header: 1 })\<close>; \<open>None\<close> when the call raises.
\<close>

datatype cell = Str jsstring | NonStr

datatype raw_row = RowArray "cell list" | RowOther

record sheet =
  withHeaders :: "cell list list option"
  rawRows :: "raw_row list option"

datatype upload = NoFile | Unreadable | Workbook "sheet list"

record import_result =
  emails :: "jsstring list"
  duplicates :: "jsstring list"
  invalid :: "jsstring list"

definition emptyResult :: import_result where
  "emptyResult = \<lparr>emails = [], duplicates = [], invalid = []\<rparr>"

definition classify :: "jsstring list \<Rightarrow> jsstring \<Rightarrow> import_result \<Rightarrow> import_result" where
  "classify recipients emailMatch st =
     (let email = toLowerCase (trim emailMatch) in
      if validateEmail email then
        if email \<in> set recipients then
          (if email \<notin> set (duplicates st) then st\<lparr>duplicates := duplicates st @ [email]\<rparr> else st)
        else if email \<notin> set (emails st) then st\<lparr>emails := emails st @ [email]\<rparr>
        else st
      else if emailMatch \<notin> set (invalid st) then st\<lparr>invalid := invalid st @ [emailMatch]\<rparr>
      else st)"

fun scanCell :: "jsstring list \<Rightarrow> cell \<Rightarrow> import_result \<Rightarrow> import_result" where
  "scanCell recipients NonStr st = st"
| "scanCell recipients (Str s) st =
     (if s = [] then st
      else case match_g extractRegex s of
             None \<Rightarrow> st
           | Some potentialEmails \<Rightarrow> fold (classify recipients) potentialEmails st)"

fun scanRawRow :: "jsstring list \<Rightarrow> raw_row \<Rightarrow> import_result \<Rightarrow> import_result" where
  "scanRawRow recipients RowOther st = st"
| "scanRawRow recipients (RowArray row) st = fold (scanCell recipients) row st"

definition scanSheet :: "jsstring list \<Rightarrow> sheet \<Rightarrow> import_result \<Rightarrow> import_result" where
  "scanSheet recipients sh st =
     (let st1 = (case withHeaders sh of
                   None \<Rightarrow> st
                 | Some jsonDataWithHeaders \<Rightarrow>
                     fold (\<lambda>row. fold (scanCell recipients) row) jsonDataWithHeaders st)
      in case rawRows sh of
           None \<Rightarrow> st1
         | Some jsonDataRaw \<Rightarrow> fold (scanRawRow recipients) jsonDataRaw st1)"

definition scanWorkbook :: "jsstring list \<Rightarrow> sheet list \<Rightarrow> import_result" where
  "scanWorkbook recipients sheets = fold (scanSheet recipients) sheets emptyResult"

text \<open>
  \<^verbatim>\<open>handleExcelImport\<close> with the file's \<^verbatim>\<open>onload\<close> callback: the notifications,
  the calls of \<^verbatim>\<open>onAddRecipient\<close> in their order, and the list afterwards. All calls
  are made by the callback of one render.
\<close>

record import_outcome =
  notifications :: "toast list"
  addCalls :: "jsstring list"
  recipientsAfter :: "jsstring list"

definition handleExcelImport :: "jsstring list \<Rightarrow> upload \<Rightarrow> import_outcome" where
  "handleExcelImport recipients up =
     (case up of
        NoFile \<Rightarrow> \<lparr>notifications = [], addCalls = [], recipientsAfter = recipients\<rparr>
      | Unreadable \<Rightarrow>
          \<lparr>notifications = [ImportFailed], addCalls = [], recipientsAfter = recipients\<rparr>
      | Workbook sheets \<Rightarrow>
          (let res = scanWorkbook recipients sheets in
           \<lparr>notifications =
              [if length (emails res) = 0 \<and> length (duplicates res) = 0 then NoEmailsFound
               else ExcelImportComplete (length (emails res)) (length (duplicates res))
                      (length (invalid res))],
            addCalls = emails res,
            recipientsAfter = fold (onAddRecipient recipients) (emails res) recipients\<rparr>))"

section \<open>The events of the form\<close>

text \<open>
  What the user can do to the recipient list, and the list that the next render sees
  after each event. \<open>ClearAllOnClick\<close> is the button of \<^verbatim>\<open>RecipientsManager\<close>,
  \<open>ClearAllHandler\<close> the \<^verbatim>\<open>handleClearAll\<close> of the later \<^verbatim>\<open>ContactForm\<close>, and
  \<open>Submit\<close> applies the \<^verbatim>\<open>setRecipients\<close> calls of \<open>onSubmit\<close>.
\<close>

datatype event =
    ManualAdd jsstring
  | ExcelImport upload
  | Remove jsstring
  | ClearAllOnClick
  | ClearAllHandler
  | Submit "attached_file list"

fun applyEffect :: "effect \<Rightarrow> jsstring list \<Rightarrow> jsstring list" where
  "applyEffect (SetRecipients v) pending = v"
| "applyEffect e pending = pending"

fun step :: "jsstring list \<Rightarrow> event \<Rightarrow> jsstring list" where
  "step recipients (ManualAdd newRecipient) = fst (snd (handleAddRecipient recipients newRecipient))"
| "step recipients (ExcelImport up) = recipientsAfter (handleExcelImport recipients up)"
| "step recipients (Remove email) = snd (handleRemoveRecipient recipients email)"
| "step recipients ClearAllOnClick = snd (clearAllOnClick recipients)"
| "step recipients ClearAllHandler = handleClearAll recipients"
| "step recipients (Submit attachedFiles) =
     fold applyEffect (onSubmit recipients attachedFiles) recipients"

section \<open>Specification-level notions\<close>

text \<open>
  The declarative reading of a piece list: \<open>den ps b w rest\<close> holds when \<open>ps\<close> can
  match exactly \<open>w\<close>, where \<open>b\<close> tells whether \<open>w\<close> begins the input and \<open>rest\<close> is
  the input after \<open>w\<close>. It says which strings can be matched, not which match the
  backtracking order prefers.
\<close>

fun den :: "piece list \<Rightarrow> bool \<Rightarrow> jsstring \<Rightarrow> jsstring \<Rightarrow> bool" where
  "den [] b w rest = (w = [])"
| "den (One c # ps) b w rest = (\<exists>x v. w = x # v \<and> class_matches c x \<and> den ps False v rest)"
| "den (AtLeast n c # ps) b w rest =
     (\<exists>u v. w = u @ v \<and> n \<le> length u \<and> list_all (class_matches c) u \<and>
            den ps (b \<and> u = []) v rest)"
| "den (Bol # ps) b w rest = (b \<and> den ps b w rest)"
| "den (Eol # ps) b w rest = (w = [] \<and> rest = [] \<and> den ps b w rest)"

definition atSign :: code_unit where
  "atSign = of_char CHR ''@''"

definition dot :: code_unit where
  "dot = of_char CHR ''.''"

definition plainUnit :: "code_unit \<Rightarrow> bool" where
  "plainUnit x \<longleftrightarrow> \<not> isWhiteSpace x \<and> x \<noteq> atSign"

text \<open>
  The validation rule in the words of the specification: a run of code units that
  are neither white space nor \<open>@\<close>, an \<open>@\<close>, another such run, a dot, and a last
  such run, all runs non-empty.
\<close>

definition validEmailSpec :: "jsstring \<Rightarrow> bool" where
  "validEmailSpec s \<longleftrightarrow>
     (\<exists>a b c. s = a @ atSign # b @ dot # c \<and> a \<noteq> [] \<and> b \<noteq> [] \<and> c \<noteq> [] \<and>
        list_all plainUnit a \<and> list_all plainUnit b \<and> list_all plainUnit c)"

text \<open>Printable ASCII other than the space and \<open>@\<close>.\<close>

definition asciiPlain :: "code_unit \<Rightarrow> bool" where
  "asciiPlain x \<longleftrightarrow> 0x21 \<le> x \<and> x \<le> 0x7E \<and> x \<noteq> 0x40"

text \<open>The shape of every match of the extraction expression.\<close>

definition emailShaped :: "jsstring \<Rightarrow> bool" where
  "emailShaped w \<longleftrightarrow>
     (\<exists>a b c. w = a @ atSign # b @ dot # c \<and> a \<noteq> [] \<and> b \<noteq> [] \<and> 2 \<le> length c \<and>
        list_all (class_matches (Class (alnum @ map (\<lambda>c. Chr (of_char c)) ''._%+-''))) a \<and>
        list_all (class_matches (Class (alnum @ map (\<lambda>c. Chr (of_char c)) ''.-''))) b \<and>
        list_all (class_matches (Class letters)) c)"

section \<open>The example workbook\<close>

text \<open>
  The four cells of the example of the specification. \<open>exampleSheet\<close> lays them out
  as one column: the reading with headers takes the first cell as the header and
  returns one record for each other cell, the raw reading returns four rows.
\<close>

definition exampleCells :: "cell list" where
  "exampleCells =
     map (\<lambda>s. Str (js s)) [''a@x.com'', ''A@X.COM'', ''not-an-email'', ''b@y.com c@z.com'']"

definition exampleSheet :: sheet where
  "exampleSheet =
     \<lparr>withHeaders = Some (map (\<lambda>c. [c]) (tl exampleCells)),
      rawRows = Some (map (\<lambda>c. RowArray [c]) exampleCells)\<rparr>"

definition exampleResult :: import_result where
  "exampleResult =
     \<lparr>emails = [js ''b@y.com'', js ''c@z.com''], duplicates = [js ''a@x.com''], invalid = []\<rparr>"

text \<open>The states that a scan of the example cells goes through.\<close>

definition exampleInv :: "import_result \<Rightarrow> bool" where
  "exampleInv st \<longleftrightarrow>
     invalid st = [] \<and> (duplicates st = [] \<or> duplicates st = [js ''a@x.com'']) \<and>
     (emails st = [] \<or> emails st = [js ''b@y.com'', js ''c@z.com''])"

section \<open>The matcher and the declarative reading\<close>

lemma repeat_sound:
  "repeat c n k b s = Some r \<Longrightarrow>
     \<exists>u v. s = u @ v \<and> n \<le> length u \<and> list_all (class_matches c) u \<and> k (b \<and> u = []) v = Some r"
proof (induction s arbitrary: n b)
  case Nil
  then show ?case by (auto split: if_splits)
next
  case (Cons x xs)
  show ?case
  proof (cases "class_matches c x \<and> repeat c (n - 1) k False xs = Some r")
    case True
    then obtain u v where uv: "xs = u @ v" "n - 1 \<le> length u" "list_all (class_matches c) u"
      "k False v = Some r"
      using Cons.IH[of "n - 1" False] by auto
    show ?thesis
      apply (rule exI[of _ "x # u"], rule exI[of _ v])
      using uv True by auto
  next
    case False
    with Cons.prems have "n = 0 \<and> k b (x # xs) = Some r"
      by (auto split: if_splits option.splits)
    then show ?thesis
      by (intro exI[of _ "[]"] exI[of _ "x # xs"]) simp
  qed
qed

lemma repeat_complete:
  "n \<le> length u \<Longrightarrow> list_all (class_matches c) u \<Longrightarrow> k (b \<and> u = []) v \<noteq> None \<Longrightarrow>
     repeat c n k b (u @ v) \<noteq> None"
proof (induction u arbitrary: n b)
  case Nil
  then show ?case by (cases v) (auto split: option.splits)
next
  case (Cons x u)
  have "repeat c (n - 1) k False (u @ v) \<noteq> None"
    using Cons.IH[of "n - 1" False] Cons.prems by auto
  with Cons.prems show ?case by auto
qed

lemma matcher_sound:
  "matcher ps b s = Some r \<Longrightarrow> \<exists>w. s = w @ r \<and> den ps b w r"
proof (induction ps arbitrary: b s)
  case Nil
  then show ?case by simp
next
  case (Cons p ps)
  show ?case
  proof (cases p)
    case (One c)
    with Cons.prems obtain x xs where s: "s = x # xs" "class_matches c x" "matcher ps False xs = Some r"
      by (cases s) (auto split: if_splits)
    from Cons.IH[OF s(3)] obtain w where "xs = w @ r" "den ps False w r" by blast
    with s One show ?thesis by (intro exI[of _ "x # w"]) simp
  next
    case (AtLeast n c)
    with Cons.prems have "repeat c n (matcher ps) b s = Some r" by simp
    from repeat_sound[OF this] obtain u v where uv: "s = u @ v" "n \<le> length u"
      "list_all (class_matches c) u" "matcher ps (b \<and> u = []) v = Some r" by blast
    from Cons.IH[OF uv(4)] obtain w where "v = w @ r" "den ps (b \<and> u = []) w r" by blast
    with uv AtLeast show ?thesis by (intro exI[of _ "u @ w"]) auto
  next
    case Bol
    with Cons.prems have "b" "matcher ps b s = Some r" by (auto split: if_splits)
    with Cons.IH[of b s] Bol show ?thesis by auto
  next
    case Eol
    with Cons.prems have s: "s = []" "matcher ps b [] = Some r" by (auto split: if_splits)
    from Cons.IH[OF s(2)] have "r = []" "den ps b [] r" by auto
    with s Eol show ?thesis by auto
  qed
qed

lemma matcher_complete:
  "den ps b w r \<Longrightarrow> matcher ps b (w @ r) \<noteq> None"
proof (induction ps arbitrary: b w)
  case Nil
  then show ?case by simp
next
  case (Cons p ps)
  show ?case
  proof (cases p)
    case (One c)
    with Cons show ?thesis by auto
  next
    case (AtLeast n c)
    with Cons.prems obtain u v where uv: "w = u @ v" "n \<le> length u"
      "list_all (class_matches c) u" "den ps (b \<and> u = []) v r" by auto
    from Cons.IH[OF uv(4)] have "matcher ps (b \<and> u = []) (v @ r) \<noteq> None" .
    from repeat_complete[of n u c "matcher ps" b "v @ r", OF uv(2,3) this] uv AtLeast
    show ?thesis by simp
  next
    case Bol
    with Cons show ?thesis by auto
  next
    case Eol
    with Cons show ?thesis by auto
  qed
qed


section \<open>The validation expression\<close>

lemma class_notSpaceAt: "class_matches notSpaceAt = plainUnit"
  by (rule ext) (simp add: notSpaceAt_def plainUnit_def atSign_def)

lemma search_Bol_False: "search (Bol # ps) False s = False"
  by (induction s) auto

lemma test_Bol: "test (Bol # ps) s = (matcher (Bol # ps) True s \<noteq> None)"
  by (cases s) (auto simp: test_def search_Bol_False)

lemma Suc0_le_length: "Suc 0 \<le> length u \<longleftrightarrow> u \<noteq> []"
  by (cases u) auto

lemma den_emailRegex: "den emailRegex True w r \<longleftrightarrow> validEmailSpec w \<and> r = []"
  unfolding emailRegex_def validEmailSpec_def
  apply (simp add: class_notSpaceAt Suc0_le_length)
  apply (rule iffI)
  subgoal
    apply clarsimp
    subgoal for u ua vc
      apply (rule exI[of _ u], rule exI[of _ ua], rule exI[of _ vc])
      apply (simp add: atSign_def dot_def)
      done
    done
  subgoal
    apply clarsimp
    subgoal for a b c
      apply (rule exI[of _ a], rule exI[of _ "atSign # b @ dot # c"])
      apply (simp add: atSign_def dot_def)
      apply (rule exI[of _ b], rule exI[of _ "dot # c"])
      apply (simp add: dot_def)
      done
    done
  done

lemma test_emailRegex: "test emailRegex s = (matcher emailRegex True s \<noteq> None)"
  unfolding emailRegex_def by (rule test_Bol)

lemma validateEmail_iff: "validateEmail s \<longleftrightarrow> validEmailSpec s"
proof
  assume "validateEmail s"
  then obtain r where "matcher emailRegex True s = Some r"
    by (auto simp: validateEmail_def test_emailRegex)
  from matcher_sound[OF this] obtain w where "s = w @ r" "den emailRegex True w r" by blast
  then show "validEmailSpec s" by (simp add: den_emailRegex)
next
  assume "validEmailSpec s"
  then have "den emailRegex True s []" by (simp add: den_emailRegex)
  from matcher_complete[OF this] show "validateEmail s"
    by (simp add: validateEmail_def test_emailRegex)
qed


section \<open>Matches of the extraction expression\<close>

lemma asciiPlain_unat: "asciiPlain x \<longleftrightarrow> 33 \<le> unat x \<and> unat x \<le> 126 \<and> unat x \<noteq> 64"
proof -
  have "x = 0x40 \<longleftrightarrow> unat x = 64"
    using word_unat_eq_iff[of x "0x40"] by simp
  then show ?thesis
    by (simp add: asciiPlain_def word_le_nat_alt)
qed

lemma asciiPlain_plainUnit: "asciiPlain x \<Longrightarrow> plainUnit x"
  unfolding asciiPlain_def plainUnit_def isWhiteSpace_def atSign_def
  by (auto simp: word_le_nat_alt)

lemma unat_lowerUnit: "unat (lowerUnit x) = (if 65 \<le> unat x \<and> unat x \<le> 90 then unat x + 32 else unat x)"
proof (cases "65 \<le> unat x \<and> unat x \<le> 90")
  case True
  then have "unat x + unat (0x20 :: code_unit) < 2 ^ LENGTH(16)" by simp
  then have "unat (x + 0x20) = unat x + unat (0x20 :: code_unit)"
    using unat_add_lem[of x "0x20"] by blast
  with True show ?thesis by (simp add: lowerUnit_def word_le_nat_alt)
next
  case False
  then show ?thesis by (auto simp: lowerUnit_def word_le_nat_alt)
qed

lemma asciiPlain_lowerUnit: "asciiPlain x \<Longrightarrow> asciiPlain (lowerUnit x)"
  by (simp add: asciiPlain_unat unat_lowerUnit)

lemma asciiPlain_not_space: "asciiPlain x \<Longrightarrow> \<not> isWhiteSpace x"
  using asciiPlain_plainUnit by (simp add: plainUnit_def)

lemma trim_no_space:
  assumes "list_all (\<lambda>x. \<not> isWhiteSpace x) s"
  shows "trim s = s"
proof -
  have d: "dropWhile isWhiteSpace t = t" if "list_all (\<lambda>x. \<not> isWhiteSpace x) t" for t
    using that by (cases t) auto
  have "list_all (\<lambda>x. \<not> isWhiteSpace x) (rev s)"
    using assms by (simp add: list_all_iff)
  then show ?thesis
    using assms by (simp add: trim_def d)
qed

lemma den_extractRegex: "den extractRegex b w r \<Longrightarrow> emailShaped w"
  unfolding extractRegex_def emailShaped_def
  apply (simp only: den.simps)
  apply (elim exE conjE)
  subgoal for u v x va ua vb xa vc ub vd
    apply (rule exI[of _ u], rule exI[of _ ua], rule exI[of _ ub])
    apply (cases u; cases ua; simp add: atSign_def dot_def)
    done
  done

lemma local_class_ascii:
  "class_matches (Class (alnum @ map (\<lambda>c. Chr (of_char c)) ''._%+-'')) x \<Longrightarrow> asciiPlain x"
  by (auto simp: alnum_def letters_def asciiPlain_unat word_le_nat_alt)

lemma domain_class_ascii:
  "class_matches (Class (alnum @ map (\<lambda>c. Chr (of_char c)) ''.-'')) x \<Longrightarrow> asciiPlain x"
  by (auto simp: alnum_def letters_def asciiPlain_unat word_le_nat_alt)

lemma letters_class_ascii: "class_matches (Class letters) x \<Longrightarrow> asciiPlain x"
  by (auto simp: letters_def asciiPlain_unat word_le_nat_alt)


lemma lowerUnit_atSign: "lowerUnit atSign = atSign"
  by (simp add: lowerUnit_def atSign_def)

lemma lowerUnit_dot: "lowerUnit dot = dot"
  by (simp add: lowerUnit_def dot_def)

lemma dot_not_space: "\<not> isWhiteSpace dot" "\<not> isWhiteSpace atSign"
  by (simp_all add: isWhiteSpace_def dot_def atSign_def)

lemma dot_ascii: "dot < 0x80" "atSign < 0x80"
  by (simp_all add: dot_def atSign_def)

lemma asciiPlain_ascii: "asciiPlain x \<Longrightarrow> x < 0x80"
  by (simp add: asciiPlain_unat word_less_nat_alt)

lemma emailShaped_parts:
  assumes "emailShaped w"
  obtains a b c where "w = a @ atSign # b @ dot # c" "a \<noteq> []" "b \<noteq> []" "c \<noteq> []"
    "list_all asciiPlain a" "list_all asciiPlain b" "list_all asciiPlain c"
proof -
  from assms obtain a b c where w: "w = a @ atSign # b @ dot # c" "a \<noteq> []" "b \<noteq> []"
    "2 \<le> length c"
    and a: "list_all (class_matches (Class (alnum @ map (\<lambda>c. Chr (of_char c)) ''._%+-''))) a"
    and b: "list_all (class_matches (Class (alnum @ map (\<lambda>c. Chr (of_char c)) ''.-''))) b"
    and c: "list_all (class_matches (Class letters)) c"
    unfolding emailShaped_def by blast
  from a have "list_all asciiPlain a"
    unfolding list_all_iff using local_class_ascii by blast
  moreover from b have "list_all asciiPlain b"
    unfolding list_all_iff using domain_class_ascii by blast
  moreover from c have "list_all asciiPlain c"
    unfolding list_all_iff using letters_class_ascii by blast
  moreover from w(4) have "c \<noteq> []" by auto
  ultimately show ?thesis using that w by blast
qed

lemma emailShaped_no_space: "emailShaped w \<Longrightarrow> list_all (\<lambda>x. \<not> isWhiteSpace x) w"
  by (erule emailShaped_parts) (auto simp: list_all_iff dot_not_space asciiPlain_not_space)

lemma emailShaped_ascii: "emailShaped w \<Longrightarrow> list_all (\<lambda>x. x < 0x80) w"
  by (erule emailShaped_parts) (auto simp: list_all_iff dot_ascii asciiPlain_ascii)

lemma emailShaped_valid:
  assumes "emailShaped w"
  shows "validEmailSpec (toLowerCase (trim w))"
proof -
  from assms obtain a b c where w: "w = a @ atSign # b @ dot # c" "a \<noteq> []" "b \<noteq> []" "c \<noteq> []"
    and p: "list_all asciiPlain a" "list_all asciiPlain b" "list_all asciiPlain c"
    by (rule emailShaped_parts)
  have t: "trim w = w"
    using assms by (intro trim_no_space emailShaped_no_space)
  have l: "list_all plainUnit (map lowerUnit u)" if "list_all asciiPlain u" for u
    using that by (simp add: list_all_iff asciiPlain_lowerUnit asciiPlain_plainUnit)
  have "toLowerCase w = map lowerUnit a @ atSign # map lowerUnit b @ dot # map lowerUnit c"
    by (simp add: w toLowerCase_def lowerUnit_atSign lowerUnit_dot)
  moreover have "map lowerUnit a \<noteq> []" "map lowerUnit b \<noteq> []" "map lowerUnit c \<noteq> []"
    using w by simp_all
  ultimately show ?thesis
    unfolding validEmailSpec_def t using l[OF p(1)] l[OF p(2)] l[OF p(3)] by blast
qed

lemma match_all_sound:
  "x \<in> set (match_all r b s) \<Longrightarrow> \<exists>b' rest. den r b' x rest"
proof (induction r b s rule: match_all.induct)
  case (1 r b)
  show ?case
  proof (cases "matcher r b []")
    case None
    with 1 show ?thesis by simp
  next
    case (Some rest)
    with 1 have "x = []" by simp
    with matcher_sound[OF Some] show ?thesis by auto
  qed
next
  case (2 r b y ys)
  show ?case
  proof (cases "matcher r b (y # ys)")
    case None
    with 2 show ?thesis by simp
  next
    case (Some rest)
    from matcher_sound[OF Some] obtain w where w: "y # ys = w @ rest" "den r b w rest" by blast
    define N where "N = length (y # ys) - length rest"
    have N: "N = length w"
      unfolding N_def by (subst w(1)) simp
    have tk: "take N (y # ys) = w"
      unfolding N by (subst w(1)) simp
    have eq: "match_all r b (y # ys) =
        (if N = 0 then [] # match_all r False ys
         else take N (y # ys) # match_all r False (drop N (y # ys)))"
      unfolding N_def by (simp only: match_all.simps Some option.case Let_def)
    have hd: "\<exists>b' rest. den r b' w rest" using w(2) by blast
    show ?thesis
    proof (cases "N = 0")
      case True
      with "2.prems" have "x = [] \<or> x \<in> set (match_all r False ys)"
        unfolding eq by simp
      moreover from True N have "w = []" by simp
      ultimately show ?thesis
        using hd "2.IH"(2)[OF Some refl True[unfolded N_def]] by blast
    next
      case False
      with "2.prems" have "x = w \<or> x \<in> set (match_all r False (drop N (y # ys)))"
        unfolding eq tk by simp
      then show ?thesis
        using hd "2.IH"(3)[OF Some refl False[unfolded N_def]] unfolding N_def by blast
    qed
  qed
qed

lemma extract_match_shaped: "x \<in> set (match_all extractRegex b s) \<Longrightarrow> emailShaped x"
  using match_all_sound den_extractRegex by blast

lemma extractRegex_match_ascii:
  "x \<in> set (match_all extractRegex b s) \<Longrightarrow> list_all (\<lambda>c. c < 0x80) x"
  by (rule emailShaped_ascii) (rule extract_match_shaped)

lemma extract_match_valid:
  "x \<in> set (match_all extractRegex b s) \<Longrightarrow> validateEmail (toLowerCase (trim x))"
  by (simp add: validateEmail_iff emailShaped_valid extract_match_shaped)


section \<open>Evaluating the example\<close>

lemmas regex_eval = match_g_def extractRegex_def alnum_def letters_def js_def

lemma match_cell1: "match_g extractRegex (js ''a@x.com'') = Some [js ''a@x.com'']"
  by (simp add: regex_eval)

lemma match_cell2: "match_g extractRegex (js ''A@X.COM'') = Some [js ''A@X.COM'']"
  by (simp add: regex_eval)

lemma match_cell3: "match_g extractRegex (js ''not-an-email'') = None"
  by (simp add: regex_eval)

lemma match_cell4: "match_g extractRegex (js ''b@y.com c@z.com'') = Some [js ''b@y.com'', js ''c@z.com'']"
  by (simp add: regex_eval)

lemmas validate_eval = validateEmail_def test_def emailRegex_def notSpaceAt_def isWhiteSpace_def js_def

lemma normalize_upper: "toLowerCase (trim (js ''A@X.COM'')) = js ''a@x.com''"
  by (simp add: toLowerCase_def trim_def lowerUnit_def isWhiteSpace_def js_def)

lemma normalize_lower:
  "toLowerCase (trim (js ''a@x.com'')) = js ''a@x.com''"
  "toLowerCase (trim (js ''b@y.com'')) = js ''b@y.com''"
  "toLowerCase (trim (js ''c@z.com'')) = js ''c@z.com''"
  by (simp_all add: toLowerCase_def trim_def lowerUnit_def isWhiteSpace_def js_def)

lemma validate_examples:
  "validateEmail (js ''a@x.com'')" "validateEmail (js ''b@y.com'')" "validateEmail (js ''c@z.com'')"
  by (simp_all add: validate_eval)

lemma distinct_examples:
  "js ''b@y.com'' \<noteq> js ''a@x.com''" "js ''c@z.com'' \<noteq> js ''a@x.com''" "js ''b@y.com'' \<noteq> js ''c@z.com''"
  by (simp_all add: js_def)

section \<open>The invalid list of an import\<close>

lemma classify_match_invalid:
  "validateEmail (toLowerCase (trim m)) \<Longrightarrow> invalid (classify recipients m st) = invalid st"
  by (simp add: classify_def Let_def)

lemma fold_classify_invalid:
  "\<forall>m\<in>set ms. validateEmail (toLowerCase (trim m)) \<Longrightarrow>
     invalid (fold (classify recipients) ms st) = invalid st"
  by (induction ms arbitrary: st) (simp_all add: classify_match_invalid)

lemma match_g_set: "match_g r s = Some ms \<Longrightarrow> set ms = set (match_all r True s)"
  by (auto simp: match_g_def Let_def split: if_splits)

lemma scanCell_invalid: "invalid (scanCell recipients c st) = invalid st"
proof (cases c)
  case (Str s)
  show ?thesis
  proof (cases "match_g extractRegex s")
    case None
    with Str show ?thesis by simp
  next
    case (Some ms)
    then have "\<forall>m\<in>set ms. validateEmail (toLowerCase (trim m))"
      using extract_match_valid match_g_set by blast
    with Str Some show ?thesis by (simp add: fold_classify_invalid)
  qed
next
  case NonStr
  then show ?thesis by simp
qed

lemma fold_scanCell_invalid: "invalid (fold (scanCell recipients) row st) = invalid st"
  by (induction row arbitrary: st) (simp_all add: scanCell_invalid)

lemma scanRawRow_invalid: "invalid (scanRawRow recipients row st) = invalid st"
  by (cases row) (simp_all add: fold_scanCell_invalid)

lemma fold_rows_invalid:
  "invalid (fold (\<lambda>row. fold (scanCell recipients) row) rows st) = invalid st"
  by (induction rows arbitrary: st) (simp_all add: fold_scanCell_invalid)

lemma fold_rawRows_invalid: "invalid (fold (scanRawRow recipients) rows st) = invalid st"
  by (induction rows arbitrary: st) (simp_all add: scanRawRow_invalid)

lemma scanSheet_invalid: "invalid (scanSheet recipients sh st) = invalid st"
  by (simp add: scanSheet_def Let_def fold_rows_invalid fold_rawRows_invalid split: option.splits)

lemma fold_scanSheet_invalid: "invalid (fold (scanSheet recipients) sheets st) = invalid st"
  by (induction sheets arbitrary: st) (simp_all add: scanSheet_invalid)

lemma scanWorkbook_invalid: "invalid (scanWorkbook recipients sheets) = []"
  by (simp add: scanWorkbook_def fold_scanSheet_invalid emptyResult_def)

section \<open>Scanning the example cells\<close>

lemma scan_cell1:
  "scanCell [js ''a@x.com''] (Str (js ''a@x.com'')) st =
     (if js ''a@x.com'' \<in> set (duplicates st) then st
      else st\<lparr>duplicates := duplicates st @ [js ''a@x.com'']\<rparr>)"
proof -
  have "js ''a@x.com'' \<noteq> []" by (simp add: js_def)
  then show ?thesis
    by (simp add: match_cell1 classify_def normalize_lower validate_examples)
qed

lemma scan_cell2:
  "scanCell [js ''a@x.com''] (Str (js ''A@X.COM'')) st =
     (if js ''a@x.com'' \<in> set (duplicates st) then st
      else st\<lparr>duplicates := duplicates st @ [js ''a@x.com'']\<rparr>)"
proof -
  have "js ''A@X.COM'' \<noteq> []" by (simp add: js_def)
  then show ?thesis
    by (simp add: match_cell2 classify_def normalize_upper validate_examples)
qed

lemma scan_cell3: "scanCell [js ''a@x.com''] (Str (js ''not-an-email'')) st = st"
  by (simp add: match_cell3)

lemma scan_cell4:
  "scanCell [js ''a@x.com''] (Str (js ''b@y.com c@z.com'')) st =
     classify [js ''a@x.com''] (js ''c@z.com'') (classify [js ''a@x.com''] (js ''b@y.com'') st)"
proof -
  have "js ''b@y.com c@z.com'' \<noteq> []" by (simp add: js_def)
  then show ?thesis by (simp add: match_cell4)
qed

lemma classify_b:
  "classify [js ''a@x.com''] (js ''b@y.com'') st =
     (if js ''b@y.com'' \<in> set (emails st) then st else st\<lparr>emails := emails st @ [js ''b@y.com'']\<rparr>)"
  by (simp add: classify_def normalize_lower validate_examples distinct_examples)

lemma classify_c:
  "classify [js ''a@x.com''] (js ''c@z.com'') st =
     (if js ''c@z.com'' \<in> set (emails st) then st else st\<lparr>emails := emails st @ [js ''c@z.com'']\<rparr>)"
  by (simp add: classify_def normalize_lower validate_examples distinct_examples)

lemmas scan_example = scan_cell1 scan_cell2 scan_cell3 scan_cell4 classify_b classify_c

lemma exampleInv_cell:
  assumes "exampleInv st" "c \<in> set exampleCells"
  shows "exampleInv (scanCell [js ''a@x.com''] c st)"
proof -
  from assms(2) consider "c = Str (js ''a@x.com'')" | "c = Str (js ''A@X.COM'')"
    | "c = Str (js ''not-an-email'')" | "c = Str (js ''b@y.com c@z.com'')"
    by (auto simp: exampleCells_def)
  then show ?thesis
  proof cases
    case 1
    with assms(1) show ?thesis
      by (auto simp: exampleInv_def scan_cell1 simp del: scanCell.simps)
  next
    case 2
    with assms(1) show ?thesis
      by (auto simp: exampleInv_def scan_cell2 simp del: scanCell.simps)
  next
    case 3
    with assms(1) show ?thesis by (simp add: scan_cell3 del: scanCell.simps)
  next
    case 4
    with assms(1) distinct_examples show ?thesis
      by (auto simp: exampleInv_def scan_cell4 classify_b classify_c simp del: scanCell.simps)
  qed
qed

lemma exampleInv_row:
  "exampleInv st \<Longrightarrow> set row \<subseteq> set exampleCells \<Longrightarrow>
     exampleInv (fold (scanCell [js ''a@x.com'']) row st)"
  by (induction row arbitrary: st) (simp_all add: exampleInv_cell)

lemma exampleInv_records:
  "exampleInv st \<Longrightarrow> \<forall>row\<in>set records. set row \<subseteq> set exampleCells \<Longrightarrow>
     exampleInv (fold (\<lambda>row. fold (scanCell [js ''a@x.com'']) row) records st)"
  by (induction records arbitrary: st) (simp_all add: exampleInv_row)

lemma fold_rawRows_concat:
  "fold (scanRawRow recipients) (map RowArray rows) st = fold (scanCell recipients) (concat rows) st"
  by (induction rows arbitrary: st) simp_all

lemma example_all_cells:
  assumes "exampleInv st"
  shows "fold (scanCell [js ''a@x.com'']) exampleCells st = exampleResult"
proof -
  obtain e d i where st: "st = \<lparr>emails = e, duplicates = d, invalid = i\<rparr>"
    by (cases st) simp
  from assms have "i = []" "d = [] \<or> d = [js ''a@x.com'']" "e = [] \<or> e = [js ''b@y.com'', js ''c@z.com'']"
    by (simp_all add: exampleInv_def st)
  then show ?thesis
    unfolding exampleCells_def exampleResult_def st
    using distinct_examples by (auto simp: scan_example simp del: scanCell.simps)
qed

lemma scan_exampleSheet: "scanWorkbook [js ''a@x.com''] [exampleSheet] = exampleResult"
proof -
  let ?R = "[js ''a@x.com'']"
  have e: "exampleInv emptyResult"
    by (simp add: exampleInv_def emptyResult_def)
  have "\<forall>row\<in>set (map (\<lambda>c. [c]) (tl exampleCells)). set row \<subseteq> set exampleCells"
    by (simp add: exampleCells_def)
  from exampleInv_records[OF e this]
  have "fold (scanCell ?R) exampleCells
          (fold (\<lambda>row. fold (scanCell ?R) row) (map (\<lambda>c. [c]) (tl exampleCells)) emptyResult) =
        exampleResult"
    by (rule example_all_cells)
  moreover have "concat (map (\<lambda>c. [c]) exampleCells) = exampleCells"
    by (simp add: exampleCells_def)
  moreover have "map (\<lambda>c. RowArray [c]) exampleCells = map RowArray (map (\<lambda>c. [c]) exampleCells)"
    by simp
  ultimately have "scanSheet ?R exampleSheet emptyResult = exampleResult"
    by (simp only: scanSheet_def exampleSheet_def Let_def sheet.simps option.case
        fold_rawRows_concat)
  then show ?thesis by (simp add: scanWorkbook_def)
qed

section \<open>The handlers\<close>

lemma validateEmail_trim: "validateEmail s \<Longrightarrow> trim s = s \<and> s \<noteq> []"
proof -
  assume "validateEmail s"
  then obtain a b c where s: "s = a @ atSign # b @ dot # c"
    and p: "list_all plainUnit a" "list_all plainUnit b" "list_all plainUnit c"
    unfolding validateEmail_iff validEmailSpec_def by blast
  have "list_all (\<lambda>x. \<not> isWhiteSpace x) s"
    using p by (auto simp: s list_all_iff plainUnit_def dot_not_space)
  then show ?thesis using s by (simp add: trim_no_space)
qed

lemma fold_onAddRecipient:
  "fold (onAddRecipient rs) es p = p \<or>
     (\<exists>e. e \<notin> set rs \<and> fold (onAddRecipient rs) es p = rs @ [e])"
proof (induction es arbitrary: p)
  case Nil
  show ?case by simp
next
  case (Cons e es)
  show ?case
  proof (cases "e \<noteq> [] \<and> e \<notin> set rs")
    case True
    then have "onAddRecipient rs e p = rs @ [e]" by (simp add: onAddRecipient_def)
    with Cons[of "rs @ [e]"] True show ?thesis by auto
  next
    case False
    then have "onAddRecipient rs e p = p" by (auto simp: onAddRecipient_def)
    with Cons[of p] show ?thesis by simp
  qed
qed

lemma fold_onRemoveRecipient:
  "fold (onRemoveRecipient rs) es p = (if es = [] then p else filter (\<lambda>r. r \<noteq> last es) rs)"
  by (induction es arbitrary: p) (simp_all add: onRemoveRecipient_def)

lemma clearAllOnClick_last:
  "recipients \<noteq> [] \<Longrightarrow>
     snd (clearAllOnClick recipients) = filter (\<lambda>r. r \<noteq> last recipients) recipients"
  by (simp add: clearAllOnClick_def fold_onRemoveRecipient)

text \<open>
  The calls of \<open>onAddRecipient\<close> that an import makes are all made by one render,
  so the last call that adds an address decides the list.
\<close>

lemma fold_onAddRecipient_new:
  "es \<noteq> [] \<Longrightarrow> [] \<notin> set es \<Longrightarrow> set es \<inter> set rs = {} \<Longrightarrow>
     fold (onAddRecipient rs) es p = rs @ [last es]"
proof (induction es arbitrary: p)
  case Nil
  then show ?case by simp
next
  case (Cons e es)
  from Cons.prems have e: "onAddRecipient rs e p = rs @ [e]"
    by (auto simp: onAddRecipient_def)
  show ?case
  proof (cases "es = []")
    case True
    with e show ?thesis by simp
  next
    case False
    with Cons.IH[of "rs @ [e]"] Cons.prems e show ?thesis by simp
  qed
qed

lemma handleClearAll_empties: "handleClearAll pending = []"
  by (simp add: handleClearAll_def)

lemma step_distinct: "distinct recipients \<Longrightarrow> distinct (step recipients ev)"
proof (cases ev)
  case (ManualAdd e)
  assume "distinct recipients"
  then show ?thesis
    by (simp add: ManualAdd handleAddRecipient_def onAddRecipient_def)
next
  case (ExcelImport up)
  assume d: "distinct recipients"
  show ?thesis
  proof (cases up)
    case (Workbook sheets)
    from fold_onAddRecipient[of recipients "emails (scanWorkbook recipients sheets)" recipients] d
    show ?thesis
      by (auto simp: ExcelImport Workbook handleExcelImport_def Let_def)
  qed (use d in \<open>simp_all add: ExcelImport handleExcelImport_def\<close>)
next
  case (Remove e)
  assume "distinct recipients"
  then show ?thesis
    by (simp add: Remove handleRemoveRecipient_def onRemoveRecipient_def)
next
  case ClearAllOnClick
  assume "distinct recipients"
  then show ?thesis
    by (simp add: ClearAllOnClick clearAllOnClick_def fold_onRemoveRecipient)
next
  case ClearAllHandler
  then show ?thesis by (simp add: handleClearAll_def)
next
  case (Submit fs)
  assume "distinct recipients"
  then show ?thesis by (simp add: Submit onSubmit_def)
qed

lemma reachable_distinct: "distinct (foldl step initialRecipients evs)"
proof -
  have "distinct rs \<Longrightarrow> distinct (foldl step rs evs)" for rs
    by (induction evs arbitrary: rs) (simp_all add: step_distinct)
  then show ?thesis by (simp add: initialRecipients_def)
qed

section \<open>Manual entry\<close>

text \<open>
  C3. For every text of the input field and every recipient list,
  \<open>handleAddRecipient\<close> shows an error notification exactly when the text is empty
  or white space only, or fails the validation expression, or is already in the list
  (compared as strings, case-sensitively); and exactly in these cases it leaves the
  list as it was. By \<open>validateEmail_iff\<close> the validation expression accepts the strings
  of the form described by \<open>validEmailSpec\<close>.
\<close>

theorem add_rejects_iff:
  "(destructive (fst (handleAddRecipient recipients newRecipient)) \<longleftrightarrow>
      trim newRecipient = [] \<or> \<not> validateEmail newRecipient \<or> newRecipient \<in> set recipients) \<and>
   (fst (snd (handleAddRecipient recipients newRecipient)) = recipients \<longleftrightarrow>
      trim newRecipient = [] \<or> \<not> validateEmail newRecipient \<or> newRecipient \<in> set recipients)"
  by (auto simp: handleAddRecipient_def onAddRecipient_def dest: validateEmail_trim)

theorem add_rejects_iff_witness:
  "destructive (fst (handleAddRecipient [js ''a@x.com''] (js ''a@x.com''))) \<and>
   fst (snd (handleAddRecipient [js ''a@x.com''] (js ''a@x.com''))) = [js ''a@x.com''] \<and>
   destructive (fst (handleAddRecipient [js ''a@x.com''] (js ''  ''))) \<and>
   destructive (fst (handleAddRecipient [js ''a@x.com''] (js ''a@x''))) \<and>
   \<not> destructive (fst (handleAddRecipient [js ''a@x.com''] (js ''A@X.COM''))) \<and>
   fst (snd (handleAddRecipient [js ''a@x.com''] (js ''A@X.COM''))) \<noteq> [js ''a@x.com'']"
proof -
  have t: "trim (js ''  '') = []" "trim (js ''A@X.COM'') \<noteq> []"
    by (simp_all add: trim_def isWhiteSpace_def js_def)
  have v: "\<not> validateEmail (js ''a@x'')" "validateEmail (js ''A@X.COM'')"
    by (simp_all add: validate_eval)
  have d: "js ''A@X.COM'' \<noteq> js ''a@x.com''"
    by (simp add: js_def)
  show ?thesis
    using add_rejects_iff[of "[js ''a@x.com'']" "js ''a@x.com''"]
      add_rejects_iff[of "[js ''a@x.com'']" "js ''  ''"]
      add_rejects_iff[of "[js ''a@x.com'']" "js ''a@x''"]
      add_rejects_iff[of "[js ''a@x.com'']" "js ''A@X.COM''"]
      t v d validate_examples
    by simp
qed

text \<open>
  The manual add of a string that passes the validation expression and is not in
  the rendered list: \<open>handleAddRecipient\<close> makes one call of \<open>onAddRecipient\<close>, which
  appends that very string at the end of the list.
\<close>

theorem add_appends:
  assumes "validateEmail newRecipient" and "newRecipient \<notin> set recipients"
  shows "handleAddRecipient recipients newRecipient =
           (RecipientAdded newRecipient, recipients @ [newRecipient], []) \<and>
         length (fst (snd (handleAddRecipient recipients newRecipient))) = length recipients + 1 \<and>
         (\<forall>i<length recipients.
            fst (snd (handleAddRecipient recipients newRecipient)) ! i = recipients ! i)"
proof -
  from validateEmail_trim[OF assms(1)] have "trim newRecipient \<noteq> []" "newRecipient \<noteq> []"
    by simp_all
  with assms have "handleAddRecipient recipients newRecipient =
      (RecipientAdded newRecipient, recipients @ [newRecipient], [])"
    by (simp add: handleAddRecipient_def onAddRecipient_def)
  then show ?thesis by (simp add: nth_append)
qed

theorem add_appends_witness:
  "validateEmail (js ''b@y.com'') \<and> js ''b@y.com'' \<notin> set [js ''a@x.com''] \<and>
   handleAddRecipient [js ''a@x.com''] (js ''b@y.com'') =
     (RecipientAdded (js ''b@y.com''), [js ''a@x.com'', js ''b@y.com''], [])"
proof -
  have h: "validateEmail (js ''b@y.com'')" "js ''b@y.com'' \<notin> set [js ''a@x.com'']"
    using validate_examples distinct_examples by simp_all
  from add_appends[OF h] h show ?thesis by simp
qed

section \<open>Clear All\<close>

text \<open>
  C2. The Clear All button calls \<open>onRemoveRecipient\<close> once for every recipient. Each
  call filters the list of the same render and replaces the pending state, so only
  the last call takes effect: with two recipients the first one is still in the
  list afterwards. In general the button removes the last entry only
  (\<open>clearAllOnClick_last\<close>), while \<open>handleClearAll\<close> of the later form empties the
  list (\<open>handleClearAll_empties\<close>).
\<close>

theorem clear_all_two_recipients:
  "snd (clearAllOnClick [js ''a@x.com'', js ''b@y.com'']) = [js ''a@x.com'']"
  by (simp add: clearAllOnClick_def onRemoveRecipient_def js_def)

section \<open>Import\<close>

text \<open>
  C1. The example of the specification, for every layout of its four cells: the raw
  reading returns the cells in their order, split into rows in any way, and the
  reading with headers raises or returns records made of these cells. The scan
  against the recipient list \<open>[a@x.com]\<close> finds the new addresses \<open>b@y.com\<close> and
  \<open>c@z.com\<close>, the duplicate \<open>a@x.com\<close> and no invalid string, since the cell
  \<open>not-an-email\<close> has no match; \<open>onAddRecipient\<close> is called twice, for \<open>b@y.com\<close>
  and then \<open>c@z.com\<close>, the order in which the scan met them.
\<close>

theorem example_import:
  assumes "rawRows sh = Some (map RowArray rows)" and "concat rows = exampleCells"
    and "case withHeaders sh of None \<Rightarrow> True
         | Some records \<Rightarrow> \<forall>row\<in>set records. set row \<subseteq> set exampleCells"
  shows "scanWorkbook [js ''a@x.com''] [sh] =
           \<lparr>emails = [js ''b@y.com'', js ''c@z.com''], duplicates = [js ''a@x.com''], invalid = []\<rparr> \<and>
         addCalls (handleExcelImport [js ''a@x.com''] (Workbook [sh])) =
           [js ''b@y.com'', js ''c@z.com''] \<and>
         notifications (handleExcelImport [js ''a@x.com''] (Workbook [sh])) =
           [ExcelImportComplete 2 1 0]"
proof -
  let ?R = "[js ''a@x.com'']"
  define st1 where "st1 = (case withHeaders sh of None \<Rightarrow> emptyResult
     | Some records \<Rightarrow> fold (\<lambda>row. fold (scanCell ?R) row) records emptyResult)"
  have e: "exampleInv emptyResult"
    by (simp add: exampleInv_def emptyResult_def)
  have "exampleInv st1"
  proof (cases "withHeaders sh")
    case None
    with e show ?thesis by (simp add: st1_def)
  next
    case (Some records)
    with assms(3) have "\<forall>row\<in>set records. set row \<subseteq> set exampleCells" by simp
    from exampleInv_records[OF e this] Some show ?thesis by (simp add: st1_def)
  qed
  then have "fold (scanCell ?R) exampleCells st1 = exampleResult"
    by (rule example_all_cells)
  then have "scanSheet ?R sh emptyResult = exampleResult"
    by (simp add: scanSheet_def Let_def assms(1,2) fold_rawRows_concat st1_def
        split: option.splits)
  then have r: "scanWorkbook ?R [sh] = exampleResult"
    by (simp add: scanWorkbook_def)
  then show ?thesis
    by (simp add: handleExcelImport_def Let_def exampleResult_def)
qed

theorem example_import_witness:
  "scanWorkbook [js ''a@x.com''] [exampleSheet] =
     \<lparr>emails = [js ''b@y.com'', js ''c@z.com''], duplicates = [js ''a@x.com''], invalid = []\<rparr> \<and>
   addCalls (handleExcelImport [js ''a@x.com''] (Workbook [exampleSheet])) =
     [js ''b@y.com'', js ''c@z.com'']"
proof -
  have "rawRows exampleSheet = Some (map RowArray (map (\<lambda>c. [c]) exampleCells))"
    by (simp add: exampleSheet_def)
  moreover have "concat (map (\<lambda>c. [c]) exampleCells) = exampleCells"
    by (simp add: exampleCells_def)
  moreover have "case withHeaders exampleSheet of None \<Rightarrow> True
         | Some records \<Rightarrow> \<forall>row\<in>set records. set row \<subseteq> set exampleCells"
    by (simp add: exampleSheet_def exampleCells_def)
  ultimately show ?thesis
    using example_import[of exampleSheet "map (\<lambda>c. [c]) exampleCells"] by blast
qed

text \<open>
  The example as the specification states it, with \<open>not-an-email\<close> in the invalid
  set, does not hold on the one-column layout.
\<close>

theorem example_import_counterexample:
  "\<not> (set (emails (scanWorkbook [js ''a@x.com''] [exampleSheet])) = {js ''b@y.com'', js ''c@z.com''} \<and>
      set (duplicates (scanWorkbook [js ''a@x.com''] [exampleSheet])) = {js ''a@x.com''} \<and>
      set (invalid (scanWorkbook [js ''a@x.com''] [exampleSheet])) = {js ''not-an-email''} \<and>
      addCalls (handleExcelImport [js ''a@x.com''] (Workbook [exampleSheet])) =
        [js ''b@y.com'', js ''c@z.com''])"
  by (simp add: scanWorkbook_invalid)

text \<open>
  C4. The add operation \<open>onAddRecipient\<close> writes the rendered list with the address
  appended, whatever the calls before it have written. The import of the example
  calls it for \<open>b@y.com\<close> and then for \<open>c@z.com\<close>, both from the render with the
  list \<open>[a@x.com]\<close>. At the second call \<open>c@z.com\<close> is valid and not in the list
  \<open>[a@x.com, b@y.com]\<close>, yet the call does not append to it: the list afterwards is
  \<open>[a@x.com, c@z.com]\<close>, of the same length, and \<open>b@y.com\<close> has lost its position. In
  general an import leaves only the last new address (\<open>fold_onAddRecipient_new\<close>).
\<close>

theorem import_add_calls_overwrite:
  "validateEmail (js ''c@z.com'') \<and>
   js ''c@z.com'' \<notin> set [js ''a@x.com'', js ''b@y.com''] \<and>
   addCalls (handleExcelImport [js ''a@x.com''] (Workbook [exampleSheet])) =
     [js ''b@y.com'', js ''c@z.com''] \<and>
   onAddRecipient [js ''a@x.com''] (js ''b@y.com'') [js ''a@x.com''] =
     [js ''a@x.com'', js ''b@y.com''] \<and>
   onAddRecipient [js ''a@x.com''] (js ''c@z.com'') [js ''a@x.com'', js ''b@y.com''] =
     [js ''a@x.com'', js ''c@z.com''] \<and>
   recipientsAfter (handleExcelImport [js ''a@x.com''] (Workbook [exampleSheet])) =
     [js ''a@x.com'', js ''c@z.com'']"
proof -
  have n: "js ''b@y.com'' \<noteq> []" "js ''c@z.com'' \<noteq> []"
    by (simp_all add: js_def)
  show ?thesis
    using n distinct_examples validate_examples
    by (simp add: handleExcelImport_def Let_def scan_exampleSheet exampleResult_def
        onAddRecipient_def)
qed

text \<open>
  C5. No match of the extraction expression fails the validation expression after
  trimming and lower-casing, so \<open>classify\<close> never puts a match into the invalid list
  and the invalid list of every import is empty. A string that does fail the
  validation is put into the invalid list as it is, not in its normalised form, once.
\<close>

theorem extraction_match_revalidates:
  "(match_g extractRegex s = Some potentialEmails \<and> emailMatch \<in> set potentialEmails \<longrightarrow>
      validateEmail (toLowerCase (trim emailMatch)) \<and>
      invalid (classify recipients emailMatch st) = invalid st) \<and>
   invalid (scanWorkbook recipients sheets) = [] \<and>
   (\<not> validateEmail (toLowerCase (trim w)) \<longrightarrow>
      classify recipients w st =
        (if w \<notin> set (invalid st) then st\<lparr>invalid := invalid st @ [w]\<rparr> else st))"
proof -
  have "validateEmail (toLowerCase (trim emailMatch))"
    if "match_g extractRegex s = Some potentialEmails" "emailMatch \<in> set potentialEmails"
    using that extract_match_valid match_g_set by blast
  then show ?thesis
    by (auto simp: classify_match_invalid scanWorkbook_invalid classify_def Let_def)
qed

theorem extraction_match_revalidates_witness:
  "validateEmail (toLowerCase (trim (js ''c@z.com''))) \<and>
   invalid (scanWorkbook [js ''a@x.com''] [exampleSheet]) = [] \<and>
   classify [js ''a@x.com''] (js ''not-an-email'') emptyResult =
     emptyResult\<lparr>invalid := [js ''not-an-email'']\<rparr>"
proof -
  have n: "\<not> validateEmail (toLowerCase (trim (js ''not-an-email'')))"
    by (simp add: validate_eval toLowerCase_def trim_def lowerUnit_def)
  have m: "match_g extractRegex (js ''b@y.com c@z.com'') = Some [js ''b@y.com'', js ''c@z.com''] \<and>
      js ''c@z.com'' \<in> set [js ''b@y.com'', js ''c@z.com'']"
    by (simp add: match_cell4)
  show ?thesis
    using extraction_match_revalidates[of "js ''b@y.com c@z.com''" "[js ''b@y.com'', js ''c@z.com'']"
        "js ''c@z.com''" "[js ''a@x.com'']" emptyResult "[exampleSheet]" "js ''not-an-email''"] n m
    by (simp add: emptyResult_def)
qed

text \<open>
  There is no cell with a match of the extraction expression that fails the
  validation expression after trimming and lower-casing.
\<close>

theorem extraction_looser_counterexample:
  "\<not> (\<exists>s potentialEmails emailMatch.
        match_g extractRegex s = Some potentialEmails \<and> emailMatch \<in> set potentialEmails \<and>
        \<not> validateEmail (toLowerCase (trim emailMatch)))"
  using extract_match_valid match_g_set by blast

text \<open>
  C6. When the workbook cannot be read, \<open>handleExcelImport\<close> shows the one
  notification \<open>ImportFailed\<close>, does not call \<open>onAddRecipient\<close> and leaves the
  recipient list as it was.
\<close>

theorem unreadable_import:
  "handleExcelImport recipients Unreadable =
     \<lparr>notifications = [ImportFailed], addCalls = [], recipientsAfter = recipients\<rparr>"
  by (simp add: handleExcelImport_def)

section \<open>The recipient list has no duplicates\<close>

text \<open>
  C7. The recipient list is without duplicates at the start, and every event of the
  form (manual add, import, remove, both ways to clear, submit) keeps it so. Hence
  every list that the form can reach is without duplicates (\<open>reachable_distinct\<close>).
\<close>

theorem no_duplicates_invariant:
  "distinct initialRecipients \<and> (distinct recipients \<longrightarrow> distinct (step recipients ev))"
  by (simp add: initialRecipients_def step_distinct)

theorem no_duplicates_invariant_witness:
  "distinct [js ''a@x.com''] \<and> distinct (step [js ''a@x.com''] (ManualAdd (js ''b@y.com'')))"
proof -
  have "distinct [js ''a@x.com'']" by simp
  with no_duplicates_invariant[of "[js ''a@x.com'']" "ManualAdd (js ''b@y.com'')"]
  show ?thesis by blast
qed

section \<open>Attachments\<close>

text \<open>
  C8. With five files staged, attaching any further files is rejected and the staged
  list stays as it was. A selection that fits under the cap of five (staged and
  selected files together) is filtered file by file: every file over 10 MB is
  rejected with its own notification, and the other files of the selection are
  appended to the staged list in their order.
\<close>

theorem attach_cap_and_size:
  "(length attachedFiles = 5 \<and> files \<noteq> [] \<longrightarrow>
      handleFileAttach attachedFiles files = ([TooManyFiles], attachedFiles)) \<and>
   (length attachedFiles + length files \<le> 5 \<longrightarrow>
      handleFileAttach attachedFiles files =
        (map (\<lambda>f. FileTooLarge (file_name f)) (filter (\<lambda>f. file_size f > 10 * 1024 * 1024) files),
         attachedFiles @ filter (\<lambda>f. file_size f \<le> 10 * 1024 * 1024) files))"
proof -
  have "files \<noteq> [] \<Longrightarrow> 0 < length files" by simp
  then show ?thesis
    by (auto simp: handleFileAttach_def maxFiles_def maxSize_def not_less)
qed

theorem attach_cap_and_size_witness:
  "handleFileAttach (replicate 5 \<lparr>file_name = ''a.pdf'', file_size = 1024\<rparr>)
       [\<lparr>file_name = ''b.pdf'', file_size = 1024\<rparr>] =
     ([TooManyFiles], replicate 5 \<lparr>file_name = ''a.pdf'', file_size = 1024\<rparr>) \<and>
   handleFileAttach [\<lparr>file_name = ''a.pdf'', file_size = 1024\<rparr>]
       [\<lparr>file_name = ''big.zip'', file_size = 11534336\<rparr>,
        \<lparr>file_name = ''b.pdf'', file_size = 2048\<rparr>] =
     ([FileTooLarge ''big.zip''],
      [\<lparr>file_name = ''a.pdf'', file_size = 1024\<rparr>, \<lparr>file_name = ''b.pdf'', file_size = 2048\<rparr>])"
  using attach_cap_and_size[of "replicate 5 \<lparr>file_name = ''a.pdf'', file_size = 1024\<rparr>"
      "[\<lparr>file_name = ''b.pdf'', file_size = 1024\<rparr>]"]
    attach_cap_and_size[of "[\<lparr>file_name = ''a.pdf'', file_size = 1024\<rparr>]"
      "[\<lparr>file_name = ''big.zip'', file_size = 11534336\<rparr>,
        \<lparr>file_name = ''b.pdf'', file_size = 2048\<rparr>]"]
  by simp

text \<open>
  Without the condition on the cap the size rule fails: with four files staged, a
  selection of one file over 10 MB and one small file is rejected as a whole, and
  the small file is not appended.
\<close>

theorem attach_size_rule_counterexample:
  "handleFileAttach (replicate 4 \<lparr>file_name = ''a.pdf'', file_size = 1024\<rparr>)
       [\<lparr>file_name = ''big.zip'', file_size = 11534336\<rparr>,
        \<lparr>file_name = ''b.pdf'', file_size = 2048\<rparr>] \<noteq>
     ([FileTooLarge ''big.zip''],
      replicate 4 \<lparr>file_name = ''a.pdf'', file_size = 1024\<rparr> @
        [\<lparr>file_name = ''b.pdf'', file_size = 2048\<rparr>])"
  by (simp add: handleFileAttach_def maxFiles_def)

text \<open>
  C10. Whenever the staged files and the selected files together are more than five,
  \<open>handleFileAttach\<close> rejects the whole selection with one notification and leaves
  the staged list as it was, whatever the sizes of the selected files and also when
  fewer than five files are staged.
\<close>

theorem attach_over_cap_rejects_batch:
  "length attachedFiles + length files > 5 \<Longrightarrow>
     handleFileAttach attachedFiles files = ([TooManyFiles], attachedFiles)"
  by (simp add: handleFileAttach_def maxFiles_def)

theorem attach_over_cap_rejects_batch_witness:
  "length (replicate 4 \<lparr>file_name = ''a.pdf'', file_size = 1024\<rparr>) +
     length [\<lparr>file_name = ''b.pdf'', file_size = 1024\<rparr>, \<lparr>file_name = ''c.pdf'', file_size = 2048\<rparr>] > 5 \<and>
   handleFileAttach (replicate 4 \<lparr>file_name = ''a.pdf'', file_size = 1024\<rparr>)
       [\<lparr>file_name = ''b.pdf'', file_size = 1024\<rparr>, \<lparr>file_name = ''c.pdf'', file_size = 2048\<rparr>] =
     ([TooManyFiles], replicate 4 \<lparr>file_name = ''a.pdf'', file_size = 1024\<rparr>)"
proof -
  have h: "length (replicate 4 \<lparr>file_name = ''a.pdf'', file_size = 1024\<rparr>) +
     length [\<lparr>file_name = ''b.pdf'', file_size = 1024\<rparr>, \<lparr>file_name = ''c.pdf'', file_size = 2048\<rparr>] > 5"
    by simp
  from attach_over_cap_rejects_batch[OF h] h show ?thesis by blast
qed

section \<open>Submission\<close>

text \<open>
  C9. A submission with an empty recipient list shows the notification
  \<open>NoRecipients\<close> and does nothing else: it neither sets the loading flag nor starts
  the delay.
\<close>

theorem submit_without_recipients:
  "recipients = [] \<Longrightarrow>
     onSubmit recipients attachedFiles = [Notify NoRecipients] \<and>
     (\<forall>d. Delay d \<notin> set (onSubmit recipients attachedFiles)) \<and>
     (\<forall>l. SetIsLoading l \<notin> set (onSubmit recipients attachedFiles))"
  by (simp add: onSubmit_def)

theorem submit_without_recipients_witness:
  "onSubmit [] [\<lparr>file_name = ''a.pdf'', file_size = 1024\<rparr>] = [Notify NoRecipients] \<and>
   Delay 2000 \<notin> set (onSubmit [] [\<lparr>file_name = ''a.pdf'', file_size = 1024\<rparr>])"
  using submit_without_recipients[of "[]" "[\<lparr>file_name = ''a.pdf'', file_size = 1024\<rparr>]"]
  by simp

end
